theory Spec2Isabelle
  imports Complex_Main
begin

unbundle bit_operations_syntax

section \<open>The video stream capture of \<^verbatim>\<open>live_stream_handler.py\<close>\<close>

text \<open>
  The class \<^verbatim>\<open>VideoStreamCapture\<close> owns a bounded deque of frames, a handle to the video
  source, a flag \<^verbatim>\<open>keep_querying\<close> and a few configuration values. Its methods are
  embedded below as functions that take the instance and return it updated. Everything the
  methods ask of the outside world is an input of the model:
  \<^item> what the \<open>i\<close>-th call of \<^verbatim>\<open>video_capture.read()\<close> yields (\<open>None\<close> for "no frame"),
  \<^item> what the \<open>i\<close>-th call of \<^verbatim>\<open>cv2.waitKey(1)\<close> returns,
  \<^item> what the \<open>i\<close>-th call of \<^verbatim>\<open>datetime.now().strftime(...)\<close> prints,
  \<^item> how many passes of its loop the reader thread completes before the main thread next
    touches the shared deque or the flag.

  Every call into a collaborator (read, sleep, release, imshow, imwrite, waitKey, mkdir,
  logging, starting the thread) is appended to a trace, tagged with the thread that made
  it. Durations are Python floats; none is computed with, so a duration is a rational.
  The file system and the image writer are taken to succeed.
\<close>

subsection \<open>Exceptions, events, threads\<close>

datatype exn =
    IOError string
  | AssertionError
  | ValueError string
  | AttributeError string
  | SystemExit int

datatype thread = MainThread | ReaderThread

datatype logmsg =
    QueryingFinished
  | StartingCapture string
  | RecordingTo string
  | RecordEvery rat
  | Indefinitely
  | UntilImages int
  | KillAnyTime
  | ImagesSaved int
  | FolderContains string
  | TotalSaved int

datatype 'f event =
    Read
  | Sleep rat
  | Release
  | Imshow 'f
  | Imwrite string 'f
  | WaitKey
  | Mkdir string
  | SetupLogger "string option"
  | LogInfo logmsg
  | LogError string
  | ThreadStart

text \<open>The reader thread runs \<^verbatim>\<open>_query_frames\<close>; it ends by returning or by an exception.\<close>

datatype thread_state = NotStarted | Alive | Ended "exn + unit"

subsection \<open>The bounded deque\<close>

text \<open>
  \<^verbatim>\<open>collections.deque(maxlen=n)\<close>: \<^verbatim>\<open>append\<close> adds at the right end and then, when the
  deque has grown beyond \<^verbatim>\<open>maxlen\<close>, drops the leftmost entry. A negative \<^verbatim>\<open>maxlen\<close> is
  refused by the constructor with a \<^verbatim>\<open>ValueError\<close>.
\<close>

record 'f deque =
  items :: "'f list"
  maxlen :: nat

definition deque_new :: "nat \<Rightarrow> 'f deque" where
  "deque_new n = \<lparr>items = [], maxlen = n\<rparr>"

definition deque_append :: "'f deque \<Rightarrow> 'f \<Rightarrow> 'f deque" where
  "deque_append d x =
     (let xs = items d @ [x]
      in d\<lparr>items := (if maxlen d < length xs then tl xs else xs)\<rparr>)"

subsection \<open>The outside world and the instance\<close>

record 'f env =
  source :: "nat \<Rightarrow> 'f option"
  keys :: "nat \<Rightarrow> int"
  clock :: "nat \<Rightarrow> string"
  sched :: "nat \<Rightarrow> nat"
  cwd :: string

text \<open>
  The attributes of the instance, then the state of the capture handle (\<open>reads\<close> calls of
  \<^verbatim>\<open>read\<close> and \<open>released\<close> calls of \<^verbatim>\<open>release\<close> so far), the number of key polls, clock
  readings and scheduling turns consumed, the state of the reader thread, the thread now
  executing, and the trace. \<open>target_folder_path = None\<close> says that the attribute was never
  assigned.
\<close>

record 'f vsc =
  stream_url :: string
  max_sequential_fail_attempts :: int
  frames :: "'f deque"
  micro_sleep_time :: rat
  keep_querying :: bool
  verbose :: bool
  target_folder_path :: "string option"
  reads :: nat
  released :: nat
  polls :: nat
  ticks :: nat
  turns :: nat
  reader :: thread_state
  cur :: thread
  trace :: "(thread \<times> 'f event) list"

definition emit :: "'f event \<Rightarrow> 'f vsc \<Rightarrow> 'f vsc" where
  "emit e w = w\<lparr>trace := trace w @ [(cur w, e)]\<rparr>"

text \<open>\<^verbatim>\<open>time.sleep(t)\<close> raises \<^verbatim>\<open>ValueError\<close> for a negative \<open>t\<close>.\<close>

definition sleep :: "rat \<Rightarrow> 'f vsc \<Rightarrow> (exn + unit) \<times> 'f vsc" where
  "sleep t w =
     (if t < 0 then (Inl (ValueError ''sleep length must be non-negative''), w)
      else (Inr (), emit (Sleep t) w))"

definition video_capture_read :: "'f env \<Rightarrow> 'f vsc \<Rightarrow> 'f option \<times> 'f vsc" where
  "video_capture_read env w = (source env (reads w), emit Read (w\<lparr>reads := Suc (reads w)\<rparr>))"

definition video_capture_release :: "'f vsc \<Rightarrow> 'f vsc" where
  "video_capture_release w = emit Release (w\<lparr>released := Suc (released w)\<rparr>)"

definition wait_key :: "'f env \<Rightarrow> 'f vsc \<Rightarrow> int \<times> 'f vsc" where
  "wait_key env w = (keys env (polls w), emit WaitKey (w\<lparr>polls := Suc (polls w)\<rparr>))"

definition now_strftime :: "'f env \<Rightarrow> 'f vsc \<Rightarrow> string \<times> 'f vsc" where
  "now_strftime env w = (clock env (ticks w), w\<lparr>ticks := Suc (ticks w)\<rparr>)"

text \<open>\<^verbatim>\<open>os.path.join\<close> of two components, as \<^verbatim>\<open>posixpath\<close> computes it.\<close>

definition path_join :: "string \<Rightarrow> string \<Rightarrow> string" where
  "path_join a b =
     (if b \<noteq> [] \<and> hd b = CHR ''/'' then b
      else if a = [] \<or> last a = CHR ''/'' then a @ b
      else a @ ''/'' @ b)"

subsection \<open>The constructor\<close>

text \<open>
  \<^verbatim>\<open>__init__\<close>. The argument \<^verbatim>\<open>target_folder_path\<close> may be \<^verbatim>\<open>None\<close> (the command line
  leaves it so when \<^verbatim>\<open>-t\<close> is absent). The assignment to \<^verbatim>\<open>self.target_folder_path\<close>
  stands inside the \<^verbatim>\<open>if\<close>, as in the source.
\<close>

definition init ::
  "'f env \<Rightarrow> string \<Rightarrow> string option \<Rightarrow> int \<Rightarrow> bool \<Rightarrow> rat \<Rightarrow> int \<Rightarrow> exn + 'f vsc" where
  "init env url target buffer_size verb micro max_fail =
     (if buffer_size < 0 then Inl (ValueError ''maxlen must be non-negative'')
      else
        let w = \<lparr>stream_url = url,
                 max_sequential_fail_attempts = max_fail,
                 frames = deque_new (nat buffer_size),
                 micro_sleep_time = micro,
                 keep_querying = True,
                 verbose = verb,
                 target_folder_path = None,
                 reads = 0, released = 0, polls = 0, ticks = 0, turns = 0,
                 reader = NotStarted, cur = MainThread, trace = []\<rparr>
        in if target = None \<or> target = Some [] then
             (case now_strftime env w of
                (stamp, w1) \<Rightarrow>
                  Inr (w1\<lparr>target_folder_path := Some (path_join (cwd env) (''capture_'' @ stamp))\<rparr>))
           else Inr w)"

subsection \<open>Fetching one frame\<close>

text \<open>
  \<^verbatim>\<open>_query_frame\<close>: the local counter \<^verbatim>\<open>num_failed_attempts\<close> starts at 0 in every call and
  is the loop's only variable.
\<close>

function query_frame_loop :: "'f env \<Rightarrow> int \<Rightarrow> 'f vsc \<Rightarrow> (exn + 'f) \<times> 'f vsc" where
  "query_frame_loop env num_failed_attempts w =
     (if num_failed_attempts < max_sequential_fail_attempts w then
        (case video_capture_read env w of
           (None, w1) \<Rightarrow>
             (case sleep (micro_sleep_time w1) w1 of
                (Inl e, w2) \<Rightarrow> (Inl e, w2)
              | (Inr u, w2) \<Rightarrow> query_frame_loop env (num_failed_attempts + 1) w2)
         | (Some frame, w1) \<Rightarrow> (Inr frame, w1))
      else
        (Inl (IOError ''No output from the stream. Ran out of maximum number of attempts.''), w))"
  by pat_completeness auto
termination
  by (relation "measure (\<lambda>(env, n, w). nat (max_sequential_fail_attempts w - n))")
     (auto simp: video_capture_read_def sleep_def emit_def split: if_splits)

declare query_frame_loop.simps [simp del]

definition query_frame :: "'f env \<Rightarrow> 'f vsc \<Rightarrow> (exn + 'f) \<times> 'f vsc" where
  "query_frame env w = query_frame_loop env 0 w"

subsection \<open>The producer loop\<close>

text \<open>
  What \<^verbatim>\<open>except (IOError, AssertionError) as err\<close> catches, with \<^verbatim>\<open>str(err)\<close>; every other
  exception passes through.
\<close>

fun caught :: "exn \<Rightarrow> string option" where
  "caught (IOError msg) = Some msg"
| "caught AssertionError = Some []"
| "caught (ValueError msg) = None"
| "caught (AttributeError msg) = None"
| "caught (SystemExit code) = None"

text \<open>
  \<^verbatim>\<open>_query_frames\<close>. The loop runs for as long as the flag stays set, so the model takes
  fuel: the number of times the loop condition may be tested. \<open>None\<close> in the first
  component says that the loop is still running when the fuel is spent. The assertion
  \<^verbatim>\<open>frame is not None\<close> cannot fail: \<^verbatim>\<open>_query_frame\<close> returns a frame or raises, which the
  type of \<open>query_frame\<close> records. \<^verbatim>\<open>sys.exit(1)\<close> raises \<^verbatim>\<open>SystemExit(1)\<close>, which leaves the
  function before its last two statements.
\<close>

fun query_frames :: "nat \<Rightarrow> 'f env \<Rightarrow> 'f vsc \<Rightarrow> (exn + unit) option \<times> 'f vsc" where
  "query_frames 0 env w = (None, w)"
| "query_frames (Suc n) env w =
     (if keep_querying w then
        (case query_frame env w of
           (Inl err, w1) \<Rightarrow>
             (case caught err of
                Some msg \<Rightarrow> (Some (Inl (SystemExit 1)), emit (LogError msg) w1)
              | None \<Rightarrow> (Some (Inl err), w1))
         | (Inr frame, w1) \<Rightarrow>
             query_frames n env (w1\<lparr>frames := deque_append (frames w1) frame\<rparr>))
      else
        (Some (Inr ()), video_capture_release (emit (LogInfo QueryingFinished) w)))"

definition signal_stop_querying :: "'f vsc \<Rightarrow> 'f vsc" where
  "signal_stop_querying w = w\<lparr>keep_querying := False\<rparr>"

subsection \<open>Taking a frame from the deque\<close>

definition get_frame_from_deque :: "bool \<Rightarrow> 'f vsc \<Rightarrow> 'f option \<times> 'f vsc" where
  "get_frame_from_deque pop_right w =
     (let d = frames w
      in if items d \<noteq> [] then
           (if pop_right then (Some (last (items d)), w\<lparr>frames := d\<lparr>items := butlast (items d)\<rparr>\<rparr>)
            else (Some (hd (items d)), w\<lparr>frames := d\<lparr>items := tl (items d)\<rparr>\<rparr>))
         else (None, w))"

subsection \<open>The reader thread\<close>

text \<open>
  \<^verbatim>\<open>record_live_stream_to_folder\<close> starts \<^verbatim>\<open>_query_frames\<close> in a daemon thread. The two
  threads share the deque, whose operations are atomic, and the flag. The reader tests the
  flag at the head of its loop and appends at the foot; the main thread pops once per pass
  of its own loop and clears the flag after it. So an interleaving is fixed by the number of
  passes the reader completes before each of those points: \<open>run_reader n\<close> lets a living
  reader make \<open>n\<close> passes, and \<open>yield\<close> takes that number from the schedule. The model
  follows one reader thread, the one started last.
\<close>

definition run_reader :: "nat \<Rightarrow> 'f env \<Rightarrow> 'f vsc \<Rightarrow> 'f vsc" where
  "run_reader n env w =
     (case reader w of
        Alive \<Rightarrow>
          (case query_frames n env (w\<lparr>cur := ReaderThread\<rparr>) of
             (None, w1) \<Rightarrow> w1\<lparr>cur := cur w\<rparr>
           | (Some r, w1) \<Rightarrow> w1\<lparr>cur := cur w, reader := Ended r\<rparr>)
      | NotStarted \<Rightarrow> w
      | Ended r \<Rightarrow> w)"

definition yield :: "'f env \<Rightarrow> 'f vsc \<Rightarrow> 'f vsc" where
  "yield env w = run_reader (sched env (turns w)) env (w\<lparr>turns := Suc (turns w)\<rparr>)"

subsection \<open>Displaying the stream\<close>

text \<open>
  \<^verbatim>\<open>show_live_stream_video\<close>: the loop is \<^verbatim>\<open>while True\<close>, left by the key \<^verbatim>\<open>q\<close> (code 113) or
  by \<^verbatim>\<open>sys.exit(1)\<close>. Fuel bounds the passes through the loop.
\<close>

fun show_loop :: "nat \<Rightarrow> 'f env \<Rightarrow> 'f vsc \<Rightarrow> (exn + unit) option \<times> 'f vsc" where
  "show_loop 0 env w = (None, w)"
| "show_loop (Suc n) env w =
     (case query_frame env w of
        (Inl err, w1) \<Rightarrow>
          (case caught err of
             Some msg \<Rightarrow> (Some (Inl (SystemExit 1)), emit (LogError msg) w1)
           | None \<Rightarrow> (Some (Inl err), w1))
      | (Inr frame, w1) \<Rightarrow>
          (case wait_key env (emit (Imshow frame) w1) of
             (key, w2) \<Rightarrow>
               if key AND 255 = 113 then (Some (Inr ()), w2)
               else show_loop n env w2))"

definition show_live_stream_video ::
  "nat \<Rightarrow> 'f env \<Rightarrow> 'f vsc \<Rightarrow> (exn + unit) option \<times> 'f vsc" where
  "show_live_stream_video fuel env w =
     (let w1 = emit (SetupLogger None) w;
          w2 = emit (LogInfo (StartingCapture (stream_url w1))) w1
      in case show_loop fuel env w2 of
           (Some (Inr u), w3) \<Rightarrow> (Some (Inr ()), signal_stop_querying w3)
         | (Some (Inl e), w3) \<Rightarrow> (Some (Inl e), w3)
         | (None, w3) \<Rightarrow> (None, w3))"

subsection \<open>Recording the stream\<close>

definition no_attribute :: exn where
  "no_attribute =
     AttributeError ''VideoStreamCapture object has no attribute target_folder_path''"

text \<open>Lines 177 to 183: wait when there is no frame, else write, pause and count.\<close>

definition save_or_wait ::
  "rat \<Rightarrow> string \<Rightarrow> 'f option \<Rightarrow> int \<Rightarrow> 'f vsc \<Rightarrow> (exn + int) \<times> 'f vsc" where
  "save_or_wait interval_in_seconds image_path frame num_images_saved w =
     (case frame of
        None \<Rightarrow>
          (case sleep (micro_sleep_time w) w of
             (Inl e, w1) \<Rightarrow> (Inl e, w1)
           | (Inr u, w1) \<Rightarrow> (Inr num_images_saved, w1))
      | Some f \<Rightarrow>
          (case sleep interval_in_seconds (emit (Imwrite image_path f) w) of
             (Inl e, w1) \<Rightarrow> (Inl e, w1)
           | (Inr u, w1) \<Rightarrow> (Inr (num_images_saved + 1), w1)))"

text \<open>Lines 188 to 191: the progress messages; \<open>folder\<close> is \<^verbatim>\<open>self.target_folder_path\<close>.\<close>

definition report_progress :: "string \<Rightarrow> int \<Rightarrow> 'f vsc \<Rightarrow> 'f vsc" where
  "report_progress folder num_images_saved w =
     (let w1 = (if verbose w \<and> num_images_saved > 0 \<and> num_images_saved mod 10 = 0
                then emit (LogInfo (ImagesSaved num_images_saved)) w else w)
      in if verbose w1 \<and> num_images_saved > 0 \<and> num_images_saved mod 100 = 0
         then emit (LogInfo (FolderContains folder)) w1 else w1)"

text \<open>
  The loop of \<^verbatim>\<open>record_live_stream_to_folder\<close> (lines 173 to 191), with the local
  \<^verbatim>\<open>num_images_saved\<close> as an argument. Fuel bounds the passes; the loop returns the number of
  images saved when its condition fails or the key \<^verbatim>\<open>q\<close> breaks it.
\<close>

fun record_loop ::
  "nat \<Rightarrow> 'f env \<Rightarrow> rat \<Rightarrow> int \<Rightarrow> int \<Rightarrow> 'f vsc \<Rightarrow> (exn + int) option \<times> 'f vsc" where
  "record_loop 0 env interval_in_seconds max_num_images num_images_saved w =
     (if num_images_saved < max_num_images \<or> max_num_images = - 1 then (None, w)
      else (Some (Inr num_images_saved), w))"
| "record_loop (Suc k) env interval_in_seconds max_num_images num_images_saved w =
     (if num_images_saved < max_num_images \<or> max_num_images = - 1 then
        (case get_frame_from_deque False (yield env w) of
           (frame, w1) \<Rightarrow>
             (case target_folder_path w1 of
                None \<Rightarrow> (Some (Inl no_attribute), w1)
              | Some folder \<Rightarrow>
                  (case now_strftime env w1 of
                     (stamp, w2) \<Rightarrow>
                       (case save_or_wait interval_in_seconds
                               (path_join folder (stamp @ ''.png'')) frame num_images_saved w2 of
                          (Inl e, w3) \<Rightarrow> (Some (Inl e), w3)
                        | (Inr saved, w3) \<Rightarrow>
                            (case wait_key env w3 of
                               (key, w4) \<Rightarrow>
                                 if key AND 255 = 113 then (Some (Inr saved), w4)
                                 else record_loop k env interval_in_seconds max_num_images saved
                                        (report_progress folder saved w4))))))
      else (Some (Inr num_images_saved), w))"

definition record_live_stream_to_folder ::
  "nat \<Rightarrow> 'f env \<Rightarrow> rat \<Rightarrow> int \<Rightarrow> 'f vsc \<Rightarrow> (exn + unit) option \<times> 'f vsc" where
  "record_live_stream_to_folder fuel env interval_in_seconds max_num_images w =
     (case target_folder_path w of
        None \<Rightarrow> (Some (Inl no_attribute), w)
      | Some folder \<Rightarrow>
          (let w1 = emit (SetupLogger (Some folder)) (emit (Mkdir folder) w);
               w2 = emit (LogInfo (RecordingTo folder)) w1;
               w3 = emit (LogInfo (RecordEvery interval_in_seconds)) w2;
               w4 = emit (LogInfo (if max_num_images = - 1 then Indefinitely
                                   else UntilImages max_num_images)) w3;
               w5 = emit (LogInfo KillAnyTime) w4;
               w6 = emit (LogInfo (StartingCapture (stream_url w5))) w5;
               w7 = emit ThreadStart (w6\<lparr>reader := Alive\<rparr>)
           in case record_loop fuel env interval_in_seconds max_num_images 0 w7 of
                (Some (Inr saved), w8) \<Rightarrow>
                  (let w9 = signal_stop_querying (yield env w8)
                   in (Some (Inr ()),
                       if verbose w9 then emit (LogInfo (TotalSaved saved)) w9 else w9))
              | (Some (Inl e), w8) \<Rightarrow> (Some (Inl e), w8)
              | (None, w8) \<Rightarrow> (None, w8)))"

subsection \<open>Reading a trace\<close>

text \<open>
  The events of one thread, in order; the time a thread sleeps between two consecutive
  events of a kind (\<open>gaps\<close>, with the time slept since the last such event as accumulator,
  \<open>None\<close> before the first).
\<close>

definition events_of :: "thread \<Rightarrow> (thread \<times> 'f event) list \<Rightarrow> 'f event list" where
  "events_of t tr = map snd (filter (\<lambda>p. fst p = t) tr)"

fun duration :: "'f event \<Rightarrow> rat" where
  "duration (Sleep t) = t"
| "duration e = 0"

fun is_read :: "'f event \<Rightarrow> bool" where
  "is_read Read = True"
| "is_read e = False"

fun is_imwrite :: "'f event \<Rightarrow> bool" where
  "is_imwrite (Imwrite p f) = True"
| "is_imwrite e = False"

fun gaps :: "('f event \<Rightarrow> bool) \<Rightarrow> rat option \<Rightarrow> 'f event list \<Rightarrow> rat list" where
  "gaps P acc [] = []"
| "gaps P acc (e # es) =
     (if P e then (case acc of None \<Rightarrow> [] | Some a \<Rightarrow> [a]) @ gaps P (Some 0) es
      else gaps P (map_option (\<lambda>a. a + duration e) acc) es)"

subsection \<open>Calls on an instance\<close>

text \<open>
  The methods of the class as calls on one instance, and the passing of time in which the
  reader thread runs.
\<close>

datatype call =
    CallQueryFrame
  | CallQueryFrames
  | CallSignalStop
  | CallGetFrame bool
  | CallShow
  | CallRecord rat int
  | ReaderRuns nat

fun exec :: "nat \<Rightarrow> 'f env \<Rightarrow> call \<Rightarrow> 'f vsc \<Rightarrow> 'f vsc" where
  "exec fuel env CallQueryFrame w = snd (query_frame env w)"
| "exec fuel env CallQueryFrames w = snd (query_frames fuel env w)"
| "exec fuel env CallSignalStop w = signal_stop_querying w"
| "exec fuel env (CallGetFrame pop_right) w = snd (get_frame_from_deque pop_right w)"
| "exec fuel env CallShow w = snd (show_live_stream_video fuel env w)"
| "exec fuel env (CallRecord interval_in_seconds max_num_images) w =
     snd (record_live_stream_to_folder fuel env interval_in_seconds max_num_images w)"
| "exec fuel env (ReaderRuns n) w = run_reader n env w"

fun exec_all :: "nat \<Rightarrow> 'f env \<Rightarrow> call list \<Rightarrow> 'f vsc \<Rightarrow> 'f vsc" where
  "exec_all fuel env [] w = w"
| "exec_all fuel env (c # cs) w = exec_all fuel env cs (exec fuel env c w)"

subsection \<open>States of a run\<close>

text \<open>
  The events a run has added to the trace, and the state in which the recording loop is
  fed: the flag is set, the reader thread lives, the main thread is the one executing, the
  target folder is assigned, and the deque and the retry limit leave room for a frame.
\<close>

definition new_events :: "'f vsc \<Rightarrow> 'f vsc \<Rightarrow> (thread \<times> 'f event) list" where
  "new_events w w' = drop (length (trace w)) (trace w')"

definition streaming :: "string \<Rightarrow> 'f vsc \<Rightarrow> bool" where
  "streaming folder w \<longleftrightarrow>
     keep_querying w \<and> reader w = Alive \<and> cur w = MainThread \<and>
     target_folder_path w = Some folder \<and> 1 \<le> maxlen (frames w) \<and>
     1 \<le> max_sequential_fail_attempts w"

subsection \<open>Example inputs\<close>

text \<open>
  A source that never has a frame, one whose first three reads find none and every later
  read finds frame 7, and one whose \<open>i\<close>-th read finds frame \<open>i\<close>. No key is pressed
  (\<^verbatim>\<open>waitKey\<close> returns -1), but for \<open>quit_pressed\<close>, where every poll returns the code of
  \<^verbatim>\<open>q\<close>. The reader makes one pass of its loop per turn. \<open>three_tries\<close> is the instance that the constructor builds for a
  buffer of 3 frames, 3 attempts and no target folder.
\<close>

definition silent :: "nat env" where
  "silent = \<lparr>source = (\<lambda>i. None), keys = (\<lambda>i. - 1), clock = (\<lambda>i. ''now''),
             sched = (\<lambda>i. 1), cwd = ''/home''\<rparr>"

definition late :: "nat env" where
  "late = \<lparr>source = (\<lambda>i. if i < 3 then None else Some 7), keys = (\<lambda>i. - 1),
           clock = (\<lambda>i. ''now''), sched = (\<lambda>i. 1), cwd = ''/home''\<rparr>"

definition ready :: "nat env" where
  "ready = \<lparr>source = (\<lambda>i. Some i), keys = (\<lambda>i. - 1), clock = (\<lambda>i. ''now''),
            sched = (\<lambda>i. 1), cwd = ''/home''\<rparr>"

definition quit_pressed :: "nat env" where
  "quit_pressed = \<lparr>source = (\<lambda>i. Some i), keys = (\<lambda>i. 113), clock = (\<lambda>i. ''now''),
            sched = (\<lambda>i. 1), cwd = ''/home''\<rparr>"

definition three_tries :: "nat vsc" where
  "three_tries =
     \<lparr>stream_url = ''cam'', max_sequential_fail_attempts = 3, frames = deque_new 3,
      micro_sleep_time = 1 / 100, keep_querying = True, verbose = True,
      target_folder_path = Some ''/home/capture_now'', reads = 0, released = 0, polls = 0,
      ticks = 1, turns = 0, reader = NotStarted, cur = MainThread, trace = []\<rparr>"

section \<open>The bounded buffer\<close>

lemma deque_append_items:
  "items (deque_append d x) =
     (if maxlen d < Suc (length (items d)) then tl (items d @ [x]) else items d @ [x])"
  by (simp add: deque_append_def Let_def)

lemma deque_append_maxlen [simp]: "maxlen (deque_append d x) = maxlen d"
  by (simp add: deque_append_def Let_def)

lemma foldl_deque_append_maxlen [simp]: "maxlen (foldl deque_append d fs) = maxlen d"
  by (induction fs arbitrary: d) simp_all

text \<open>One append on a list that holds the last \<open>m\<close> of \<open>xs\<close> leaves the last \<open>m\<close> of \<open>xs @ [x]\<close>.\<close>

lemma trim_snoc:
  assumes "ys = drop (length xs - m) xs"
  shows "(if m < Suc (length ys) then tl (ys @ [x]) else ys @ [x]) =
         drop (Suc (length xs) - m) (xs @ [x])"
proof (cases "m \<le> length xs")
  case False
  with assms show ?thesis by simp
next
  case True
  then have len: "length ys = m" using assms by simp
  show ?thesis
  proof (cases m)
    case 0
    with assms show ?thesis by simp
  next
    case (Suc m')
    then have ne: "ys \<noteq> []" using len by auto
    have "tl (ys @ [x]) = tl ys @ [x]" using ne by simp
    also have "tl ys = drop (Suc (length xs - m)) xs"
      using assms by (simp add: drop_Suc tl_drop)
    also have "\<dots> @ [x] = drop (Suc (length xs - m)) (xs @ [x])"
      using True Suc by simp
    also have "Suc (length xs - m) = Suc (length xs) - m"
      using True by simp
    finally show ?thesis using len by simp
  qed
qed

lemma foldl_deque_append_items:
  "length (items d) \<le> maxlen d \<Longrightarrow>
   items (foldl deque_append d fs) = drop (length (items d @ fs) - maxlen d) (items d @ fs)"
proof (induction fs rule: rev_induct)
  case Nil
  then show ?case by simp
next
  case (snoc f fs)
  have IH: "items (foldl deque_append d fs) =
            drop (length (items d @ fs) - maxlen d) (items d @ fs)"
    using snoc by simp
  have "items (foldl deque_append d (fs @ [f])) =
        (if maxlen d < Suc (length (items (foldl deque_append d fs)))
         then tl (items (foldl deque_append d fs) @ [f])
         else items (foldl deque_append d fs) @ [f])"
    by (simp add: deque_append_items)
  also have "\<dots> = drop (Suc (length (items d @ fs)) - maxlen d) ((items d @ fs) @ [f])"
    by (rule trim_snoc [OF IH])
  finally show ?case by simp
qed

text \<open>
  Claim C1. Appending the frames \<open>fs\<close>, in order, to an empty deque of capacity \<open>C \<ge> 1\<close>,
  with no pop in between, leaves the last \<open>C\<close> of them in arrival order (all of them when
  there are fewer); for \<open>C + k\<close> frames these are the frames after the first \<open>k\<close>. The length
  is \<open>min C (length fs)\<close>. An append to a full deque drops the head and keeps the new frame
  at the tail.
\<close>

theorem buffer_keeps_most_recent:
  fixes fs :: "'f list"
  assumes C: "1 \<le> C"
  shows "items (foldl deque_append (deque_new C) fs) = drop (length fs - C) fs
   \<and> length (items (foldl deque_append (deque_new C) fs)) = min C (length fs)
   \<and> (length fs = C + k \<longrightarrow> items (foldl deque_append (deque_new C) fs) = drop k fs)
   \<and> (\<forall>(d :: 'f deque) x. maxlen d = C \<and> length (items d) = C \<longrightarrow>
         items (deque_append d x) = tl (items d) @ [x])"
proof -
  have a: "items (foldl deque_append (deque_new C) fs) = drop (length fs - C) fs"
    using foldl_deque_append_items [of "deque_new C" fs] by (simp add: deque_new_def)
  have b: "items (deque_append d x) = tl (items d) @ [x]"
    if h: "maxlen d = C \<and> length (items d) = C" for d :: "'f deque" and x
  proof -
    from h C have "items d \<noteq> []" by auto
    with h show ?thesis by (simp add: deque_append_items)
  qed
  from a have c: "length (items (foldl deque_append (deque_new C) fs)) = min C (length fs)"
    by simp
  from a have d: "length fs = C + k \<longrightarrow> items (foldl deque_append (deque_new C) fs) = drop k fs"
    by simp
  from a b c d show ?thesis by blast
qed

theorem buffer_keeps_most_recent_witness:
  "(1::nat) \<le> 3 \<and>
   items (foldl deque_append (deque_new 3) [1, 2, 3, 4, 5 :: nat]) = [3, 4, 5]
   \<and> length (items (foldl deque_append (deque_new 3) [1, 2, 3, 4, 5 :: nat])) = 3
   \<and> items (deque_append \<lparr>items = [3, 4, 5 :: nat], maxlen = 3\<rparr> 6) = [4, 5, 6]"
  using buffer_keeps_most_recent [of 3 "[1, 2, 3, 4, 5 :: nat]" 2]
  by (simp add: deque_append_def deque_new_def)

text \<open>
  Claim C5. \<^verbatim>\<open>get_frame_from_deque\<close> with \<^verbatim>\<open>pop_right\<close> true removes and returns the tail
  entry, with \<^verbatim>\<open>pop_right\<close> false the head entry; on an empty deque it returns \<open>None\<close> in both
  modes and leaves the instance as it was. The function has no loop and no wait: it is a
  total function of the state.
\<close>

theorem get_frame_from_deque_ends:
  "get_frame_from_deque True (w\<lparr>frames := d\<lparr>items := xs @ [x]\<rparr>\<rparr>)
     = (Some x, w\<lparr>frames := d\<lparr>items := xs\<rparr>\<rparr>)
   \<and> get_frame_from_deque False (w\<lparr>frames := d\<lparr>items := x # xs\<rparr>\<rparr>)
     = (Some x, w\<lparr>frames := d\<lparr>items := xs\<rparr>\<rparr>)
   \<and> get_frame_from_deque pop_right (w\<lparr>frames := d\<lparr>items := []\<rparr>\<rparr>)
     = (None, w\<lparr>frames := d\<lparr>items := []\<rparr>\<rparr>)"
  by (simp add: get_frame_from_deque_def Let_def)

section \<open>Fetching with bounded retries\<close>

lemma three_tries_init: "init silent ''cam'' None 3 True (1 / 100) 3 = Inr three_tries"
  by (simp add: init_def silent_def three_tries_def now_strftime_def path_join_def)

text \<open>
  With \<open>m\<close> attempts left and a source that has no frame at any of them, the loop reads and
  sleeps \<open>m\<close> times and raises.
\<close>

lemma query_frame_loop_absent:
  assumes "0 \<le> micro_sleep_time w"
    and "nat (max_sequential_fail_attempts w - k) = m"
    and "\<forall>i<m. source env (reads w + i) = None"
  shows "query_frame_loop env k w =
           (Inl (IOError ''No output from the stream. Ran out of maximum number of attempts.''),
            w\<lparr>reads := reads w + m,
              trace := trace w @
                concat (replicate m [(cur w, Read), (cur w, Sleep (micro_sleep_time w))])\<rparr>)"
  using assms
proof (induction m arbitrary: k w)
  case 0
  then show ?case
    by (subst query_frame_loop.simps) simp
next
  case (Suc m)
  let ?w2 = "emit (Sleep (micro_sleep_time w)) (emit Read (w\<lparr>reads := Suc (reads w)\<rparr>))"
  from Suc.prems have lt: "k < max_sequential_fail_attempts w" by simp
  from Suc.prems have none: "source env (reads w) = None" by auto
  have step: "query_frame_loop env k w = query_frame_loop env (k + 1) ?w2"
    using lt none Suc.prems(1)
    by (subst query_frame_loop.simps) (simp add: video_capture_read_def sleep_def emit_def)
  have a: "0 \<le> micro_sleep_time ?w2" using Suc.prems(1) by (simp add: emit_def)
  have b: "nat (max_sequential_fail_attempts ?w2 - (k + 1)) = m"
    using Suc.prems(2) by (simp add: emit_def)
  have c: "\<forall>i<m. source env (reads ?w2 + i) = None"
    using Suc.prems(3) by (auto simp: emit_def)
  show ?case
    unfolding step Suc.IH [OF a b c]
    by (simp add: emit_def replicate_append_same)
qed

lemma gaps_reads_sleeps_from:
  "gaps is_read (Some a) (map snd (concat (replicate (Suc m) [(t, Read), (t, Sleep d)]))) =
     a # replicate m d"
proof (induction m arbitrary: a)
  case 0
  show ?case by simp
next
  case (Suc m)
  show ?case using Suc [of d] by simp
qed

lemma gaps_reads_sleeps:
  "gaps is_read None (map snd (concat (replicate m [(t, Read), (t, Sleep d)]))) =
     replicate (m - 1) d"
proof (cases m)
  case 0
  then show ?thesis by simp
next
  case (Suc j)
  show ?thesis
  proof (cases j)
    case 0
    with Suc show ?thesis by simp
  next
    case (Suc i)
    with \<open>m = Suc j\<close> show ?thesis
      using gaps_reads_sleeps_from [of d i t d] by simp
  qed
qed



lemma query_frame_found:
  assumes "0 < max_sequential_fail_attempts w"
    and "source env (reads w) = Some f"
  shows "query_frame env w =
           (Inr f, w\<lparr>reads := Suc (reads w), trace := trace w @ [(cur w, Read)]\<rparr>)"
  using assms unfolding query_frame_def
  by (subst query_frame_loop.simps) (simp add: video_capture_read_def emit_def)

text \<open>
  Claim C6. When the first read of a call of \<^verbatim>\<open>_query_frame\<close> finds a frame, the call returns
  that frame after this one read and no sleep. The instance holds no failure counter (the
  counter is a local of the call, started at 0), so this holds in every state: whatever
  earlier calls did, failures included, has no part in it.
\<close>

theorem query_frame_first_attempt:
  assumes "0 < max_sequential_fail_attempts w"
    and "source env (reads w) = Some f"
  shows "query_frame env w =
           (Inr f, w\<lparr>reads := Suc (reads w), trace := trace w @ [(cur w, Read)]\<rparr>)"
  using assms by (rule query_frame_found)

lemma late_first_call:
  "query_frame late three_tries =
     (Inl (IOError ''No output from the stream. Ran out of maximum number of attempts.''),
      three_tries\<lparr>reads := 3,
        trace := [(MainThread, Read), (MainThread, Sleep (1 / 100)),
                  (MainThread, Read), (MainThread, Sleep (1 / 100)),
                  (MainThread, Read), (MainThread, Sleep (1 / 100))]\<rparr>)"
  by (simp add: query_frame_def query_frame_loop.simps video_capture_read_def sleep_def
      emit_def late_def three_tries_def)

text \<open>
  The witness takes the state left by a call that failed after three absences; the next
  call finds frame 7 at its first read.
\<close>

theorem query_frame_first_attempt_witness:
  "fst (query_frame late three_tries) =
     Inl (IOError ''No output from the stream. Ran out of maximum number of attempts.'')
   \<and> (0::int) < 3 \<and> source late 3 = Some 7
   \<and> query_frame late (snd (query_frame late three_tries)) =
     (Inr 7,
      three_tries\<lparr>reads := 4,
        trace := [(MainThread, Read), (MainThread, Sleep (1 / 100)),
                  (MainThread, Read), (MainThread, Sleep (1 / 100)),
                  (MainThread, Read), (MainThread, Sleep (1 / 100)),
                  (MainThread, Read)]\<rparr>)"
  using query_frame_first_attempt [of "snd (query_frame late three_tries)" late 7]
  by (simp add: late_first_call) (simp add: late_def three_tries_def)

section \<open>The producer loop\<close>

text \<open>
  What a call of \<^verbatim>\<open>_query_frame\<close> and a run of \<^verbatim>\<open>_query_frames\<close> can change: the first only
  the read count and the trace, the second also the deque (by appends) and the release
  count. The events they add carry the tag of the running thread and none writes an image.
\<close>

lemma query_frame_loop_effect:
  "query_frame_loop env k w = (r, w') \<Longrightarrow>
   \<exists>n tr. w' = w\<lparr>reads := reads w + n, trace := trace w @ tr\<rparr>
         \<and> (\<forall>p\<in>set tr. fst p = cur w \<and> \<not> is_imwrite (snd p))"
proof (induction m \<equiv> "nat (max_sequential_fail_attempts w - k)" arbitrary: k w)
  case 0
  then have "\<not> k < max_sequential_fail_attempts w" by simp
  with 0 have "w' = w" by (subst (asm) query_frame_loop.simps) simp
  then have "w' = w\<lparr>reads := reads w + 0, trace := trace w @ []\<rparr>" by simp
  then show ?case by (metis empty_iff list.set(1))
next
  case (Suc m)
  then have lt: "k < max_sequential_fail_attempts w" by simp
  show ?case
  proof (cases "source env (reads w)")
    case (Some f)
    with lt Suc.prems have "w' = w\<lparr>reads := reads w + 1, trace := trace w @ [(cur w, Read)]\<rparr>"
      by (subst (asm) query_frame_loop.simps) (auto simp: video_capture_read_def emit_def)
    moreover have "\<forall>p\<in>set [(cur w, Read :: 'a event)]. fst p = cur w \<and> \<not> is_imwrite (snd p)" by simp
    ultimately show ?thesis by blast
  next
    case None
    show ?thesis
    proof (cases "micro_sleep_time w < 0")
      case True
      with lt None Suc.prems have "w' = w\<lparr>reads := reads w + 1, trace := trace w @ [(cur w, Read)]\<rparr>"
        by (subst (asm) query_frame_loop.simps) (auto simp: video_capture_read_def emit_def sleep_def)
      moreover have "\<forall>p\<in>set [(cur w, Read :: 'a event)]. fst p = cur w \<and> \<not> is_imwrite (snd p)" by simp
      ultimately show ?thesis by blast
    next
      case False
      let ?w2 = "w\<lparr>reads := Suc (reads w), trace := trace w @ [(cur w, Read), (cur w, Sleep (micro_sleep_time w))]\<rparr>"
      from lt None False Suc.prems have rec: "query_frame_loop env (k + 1) ?w2 = (r, w')"
        by (subst (asm) query_frame_loop.simps) (simp add: video_capture_read_def emit_def sleep_def)
      have m: "m = nat (max_sequential_fail_attempts ?w2 - (k + 1))" using Suc.hyps(2) by simp
      from Suc.hyps(1) [OF m rec] obtain n tr where
        w': "w' = ?w2\<lparr>reads := reads ?w2 + n, trace := trace ?w2 @ tr\<rparr>"
        and tr: "\<forall>p\<in>set tr. fst p = cur ?w2 \<and> \<not> is_imwrite (snd p)" by blast
      from w' have "w' = w\<lparr>reads := reads w + Suc n,
          trace := trace w @ ((cur w, Read) # (cur w, Sleep (micro_sleep_time w)) # tr)\<rparr>" by simp
      moreover from tr have "\<forall>p\<in>set ((cur w, Read) # (cur w, Sleep (micro_sleep_time w)) # tr).
          fst p = cur w \<and> \<not> is_imwrite (snd p)" by simp
      ultimately show ?thesis by blast
    qed
  qed
qed

lemma query_frames_effect:
  "query_frames n env w = (r, w') \<Longrightarrow>
   \<exists>fs m k tr. w' = w\<lparr>frames := foldl deque_append (frames w) fs, reads := reads w + m,
                     released := released w + k, trace := trace w @ tr\<rparr>
         \<and> (\<forall>p\<in>set tr. fst p = cur w \<and> \<not> is_imwrite (snd p))"
proof (induction n arbitrary: w)
  case 0
  then have "w' = w\<lparr>frames := foldl deque_append (frames w) [], reads := reads w + 0,
                     released := released w + 0, trace := trace w @ []\<rparr>" by simp
  then show ?case by (metis empty_iff list.set(1))
next
  case (Suc n)
  show ?case
  proof (cases "keep_querying w")
    case False
    with Suc.prems have "w' = w\<lparr>frames := foldl deque_append (frames w) [], reads := reads w + 0,
         released := released w + 1, trace := trace w @ [(cur w, LogInfo QueryingFinished), (cur w, Release)]\<rparr>"
      by (auto simp: video_capture_release_def emit_def)
    moreover have "\<forall>p\<in>set [(cur w, LogInfo QueryingFinished), (cur w, Release :: 'a event)]. fst p = cur w \<and> \<not> is_imwrite (snd p)"
      by simp
    ultimately show ?thesis by blast
  next
    case True
    obtain q w1 where qf: "query_frame env w = (q, w1)" by (cases "query_frame env w")
    then obtain m1 tr1 where w1: "w1 = w\<lparr>reads := reads w + m1, trace := trace w @ tr1\<rparr>"
      and tr1: "\<forall>p\<in>set tr1. fst p = cur w \<and> \<not> is_imwrite (snd p)"
      unfolding query_frame_def using query_frame_loop_effect by blast
    show ?thesis
    proof (cases q)
      case (Inl err)
      show ?thesis
      proof (cases "caught err")
        case None
        with True qf Inl Suc.prems have "w' = w1" by simp
        with w1 have "w' = w\<lparr>frames := foldl deque_append (frames w) [], reads := reads w + m1,
             released := released w + 0, trace := trace w @ tr1\<rparr>" by simp
        with tr1 show ?thesis by blast
      next
        case (Some msg)
        with True qf Inl Suc.prems have "w' = emit (LogError msg) w1" by simp
        with w1 have "w' = w\<lparr>frames := foldl deque_append (frames w) [], reads := reads w + m1,
             released := released w + 0, trace := trace w @ (tr1 @ [(cur w, LogError msg)])\<rparr>"
          by (simp add: emit_def)
        moreover from tr1 have "\<forall>p\<in>set (tr1 @ [(cur w, LogError msg)]). fst p = cur w \<and> \<not> is_imwrite (snd p)"
          by simp
        ultimately show ?thesis by blast
      qed
    next
      case (Inr f)
      let ?w2 = "w1\<lparr>frames := deque_append (frames w1) f\<rparr>"
      from True qf Inr Suc.prems have "query_frames n env ?w2 = (r, w')" by simp
      from Suc.IH [OF this] obtain fs m k tr where
        w': "w' = ?w2\<lparr>frames := foldl deque_append (frames ?w2) fs, reads := reads ?w2 + m,
                     released := released ?w2 + k, trace := trace ?w2 @ tr\<rparr>"
        and tr: "\<forall>p\<in>set tr. fst p = cur ?w2 \<and> \<not> is_imwrite (snd p)" by blast
      from w' w1 have "w' = w\<lparr>frames := foldl deque_append (frames w) (f # fs), reads := reads w + (m1 + m),
                     released := released w + k, trace := trace w @ (tr1 @ tr)\<rparr>" by simp
      moreover from tr tr1 w1 have "\<forall>p\<in>set (tr1 @ tr). fst p = cur w \<and> \<not> is_imwrite (snd p)" by auto
      ultimately show ?thesis by blast
    qed
  qed
qed

lemma query_frame_effect:
  "query_frame env w = (r, w') \<Longrightarrow>
   \<exists>n tr. w' = w\<lparr>reads := reads w + n, trace := trace w @ tr\<rparr>
         \<and> (\<forall>p\<in>set tr. fst p = cur w \<and> \<not> is_imwrite (snd p))"
  unfolding query_frame_def by (rule query_frame_loop_effect)

lemma run_reader_effect:
  "\<exists>fs m k tr st. run_reader n env w =
       w\<lparr>frames := foldl deque_append (frames w) fs, reads := reads w + m,
         released := released w + k, reader := st, trace := trace w @ tr\<rparr>
     \<and> (\<forall>p\<in>set tr. fst p = ReaderThread \<and> \<not> is_imwrite (snd p))"
proof (cases "reader w = Alive")
  case False
  then have "run_reader n env w = w\<lparr>frames := foldl deque_append (frames w) [], reads := reads w + 0,
         released := released w + 0, reader := reader w, trace := trace w @ []\<rparr>"
    by (cases "reader w") (simp_all add: run_reader_def)
  then show ?thesis by (metis empty_iff list.set(1))
next
  case True
  obtain r w1 where q: "query_frames n env (w\<lparr>cur := ReaderThread\<rparr>) = (r, w1)"
    by (cases "query_frames n env (w\<lparr>cur := ReaderThread\<rparr>)")
  from query_frames_effect [OF q] obtain fs m k tr where
    w1: "w1 = w\<lparr>cur := ReaderThread, frames := foldl deque_append (frames w) fs, reads := reads w + m,
                     released := released w + k, trace := trace w @ tr\<rparr>"
    and tr: "\<forall>p\<in>set tr. fst p = ReaderThread \<and> \<not> is_imwrite (snd p)" by auto
  have "run_reader n env w = w\<lparr>frames := foldl deque_append (frames w) fs, reads := reads w + m,
         released := released w + k,
         reader := (case r of None \<Rightarrow> Alive | Some x \<Rightarrow> Ended x), trace := trace w @ tr\<rparr>"
    using True q w1 by (cases r) (simp_all add: run_reader_def)
  with tr show ?thesis by blast
qed

section \<open>The flag\<close>

text \<open>
  The flag is written in two places: the constructor sets it and \<^verbatim>\<open>signal_stop_querying\<close>
  clears it. Every other step leaves it as it is.
\<close>

lemma run_reader_keep_querying [simp]: "keep_querying (run_reader n env w) = keep_querying w"
  using run_reader_effect [of n env w] by (elim exE conjE) simp

lemma yield_keep_querying [simp]: "keep_querying (yield env w) = keep_querying w"
  by (simp add: yield_def)

lemma query_frame_keep_querying:
  "query_frame env w = (r, w') \<Longrightarrow> keep_querying w' = keep_querying w"
  using query_frame_effect [of env w r w'] by auto

lemma query_frames_keep_querying:
  "query_frames n env w = (r, w') \<Longrightarrow> keep_querying w' = keep_querying w"
  using query_frames_effect [of n env w r w'] by auto

lemma get_frame_keep_querying:
  "get_frame_from_deque b w = (r, w') \<Longrightarrow> keep_querying w' = keep_querying w"
  by (auto simp: get_frame_from_deque_def Let_def split: if_splits)

lemma save_or_wait_keep_querying:
  "save_or_wait i p f n w = (r, w') \<Longrightarrow> keep_querying w' = keep_querying w"
  by (auto simp: save_or_wait_def sleep_def emit_def split: option.splits if_splits)

lemma report_progress_keep_querying [simp]:
  "keep_querying (report_progress folder n w) = keep_querying w"
  by (simp add: report_progress_def emit_def Let_def)

lemma show_loop_keep_querying:
  "show_loop n env w = (r, w') \<Longrightarrow> keep_querying w' = keep_querying w"
proof (induction n arbitrary: w)
  case 0
  then show ?case by simp
next
  case (Suc n)
  obtain q w1 where qf: "query_frame env w = (q, w1)" by (cases "query_frame env w")
  then have k1: "keep_querying w1 = keep_querying w"
    by (rule query_frame_keep_querying)
  show ?case
  proof (cases q)
    case (Inl err)
    with Suc.prems qf k1 show ?thesis
      by (cases "caught err") (auto simp: emit_def)
  next
    case (Inr f)
    let ?w2 = "emit WaitKey (emit (Imshow f) w1\<lparr>polls := Suc (polls w1)\<rparr>)"
    have k2: "keep_querying ?w2 = keep_querying w" using k1 by (simp add: emit_def)
    show ?thesis
    proof (cases "keys env (polls w1) AND 255 = 113")
      case True
      with Suc.prems qf Inr have "w' = ?w2" by (simp add: wait_key_def emit_def)
      with k2 show ?thesis by simp
    next
      case False
      with Suc.prems qf Inr have "show_loop n env ?w2 = (r, w')"
        by (simp add: wait_key_def emit_def)
      from Suc.IH [OF this] k2 show ?thesis by simp
    qed
  qed
qed

lemma record_loop_keep_querying:
  "record_loop k env i m n w = (r, w') \<Longrightarrow> keep_querying w' = keep_querying w"
proof (induction k arbitrary: n w)
  case 0
  then show ?case by (auto split: if_splits)
next
  case (Suc k)
  show ?case
  proof (cases "n < m \<or> m = - 1")
    case False
    with Suc.prems show ?thesis by simp
  next
    case True
    obtain frame w1 where g: "get_frame_from_deque False (yield env w) = (frame, w1)"
      by (cases "get_frame_from_deque False (yield env w)")
    then have k1: "keep_querying w1 = keep_querying w"
      using get_frame_keep_querying [OF g] by simp
    show ?thesis
    proof (cases "target_folder_path w1")
      case None
      with True g k1 Suc.prems show ?thesis by auto
    next
      case (Some folder)
      let ?w2 = "w1\<lparr>ticks := Suc (ticks w1)\<rparr>"
      obtain s w3 where sv: "save_or_wait i (path_join folder (clock env (ticks w1) @ ''.png'')) frame n ?w2 = (s, w3)"
        by (cases "save_or_wait i (path_join folder (clock env (ticks w1) @ ''.png'')) frame n ?w2")
      have k3: "keep_querying w3 = keep_querying w"
        using save_or_wait_keep_querying [OF sv] k1 by simp
      show ?thesis
      proof (cases s)
        case (Inl e)
        with True g Some sv k3 Suc.prems show ?thesis
          by (auto simp: now_strftime_def)
      next
        case (Inr saved)
        let ?w4 = "emit WaitKey (w3\<lparr>polls := Suc (polls w3)\<rparr>)"
        have k4: "keep_querying ?w4 = keep_querying w" using k3 by (simp add: emit_def)
        show ?thesis
        proof (cases "keys env (polls w3) AND 255 = 113")
          case True
          with \<open>n < m \<or> m = - 1\<close> g Some sv Inr Suc.prems have "w' = ?w4"
            by (auto simp: now_strftime_def wait_key_def)
          with k4 show ?thesis by simp
        next
          case False
          with \<open>n < m \<or> m = - 1\<close> g Some sv Inr Suc.prems
          have "record_loop k env i m saved (report_progress folder saved ?w4) = (r, w')"
            by (auto simp: now_strftime_def wait_key_def)
          from Suc.IH [OF this] k4 show ?thesis by simp
        qed
      qed
    qed
  qed
qed

lemma show_live_stream_video_stays_stopped:
  assumes "\<not> keep_querying w"
  shows "\<not> keep_querying (snd (show_live_stream_video fuel env w))"
proof -
  let ?w2 = "emit (LogInfo (StartingCapture (stream_url (emit (SetupLogger None) w)))) (emit (SetupLogger None) w)"
  obtain r w3 where sl: "show_loop fuel env ?w2 = (r, w3)" by (cases "show_loop fuel env ?w2")
  from show_loop_keep_querying [OF sl] assms have "\<not> keep_querying w3" by (simp add: emit_def)
  with sl show ?thesis
    by (auto simp: show_live_stream_video_def Let_def signal_stop_querying_def
             split: option.splits sum.splits)
qed

lemma record_live_stream_to_folder_stays_stopped:
  assumes "\<not> keep_querying w"
  shows "\<not> keep_querying (snd (record_live_stream_to_folder fuel env i m w))"
proof (cases "target_folder_path w")
  case None
  with assms show ?thesis by (simp add: record_live_stream_to_folder_def)
next
  case (Some folder)
  define w7 where "w7 = emit ThreadStart
    ((emit (LogInfo (StartingCapture (stream_url w)))
       (emit (LogInfo KillAnyTime)
         (emit (LogInfo (if m = - 1 then Indefinitely else UntilImages m))
           (emit (LogInfo (RecordEvery i))
             (emit (LogInfo (RecordingTo folder))
               (emit (SetupLogger (Some folder)) (emit (Mkdir folder) w)))))))\<lparr>reader := Alive\<rparr>)"
  obtain r w8 where rl: "record_loop fuel env i m 0 w7 = (r, w8)"
    by (cases "record_loop fuel env i m 0 w7")
  from record_loop_keep_querying [OF rl] assms have "\<not> keep_querying w8"
    by (simp add: w7_def emit_def)
  moreover have "record_live_stream_to_folder fuel env i m w =
    (case (r, w8) of
                (Some (Inr saved), w8) \<Rightarrow>
                  (let w9 = signal_stop_querying (yield env w8)
                   in (Some (Inr ()),
                       if verbose w9 then emit (LogInfo (TotalSaved saved)) w9 else w9))
              | (Some (Inl e), w8) \<Rightarrow> (Some (Inl e), w8)
              | (None, w8) \<Rightarrow> (None, w8))"
    unfolding record_live_stream_to_folder_def using Some rl
    by (simp add: Let_def w7_def emit_def)
  ultimately show ?thesis
    by (auto simp: Let_def signal_stop_querying_def emit_def split: option.splits sum.splits)
qed

lemma exec_stays_stopped:
  assumes "\<not> keep_querying w"
  shows "\<not> keep_querying (exec fuel env c w)"
proof (cases c)
  case CallQueryFrame
  with assms show ?thesis
    using query_frame_keep_querying [of env w "fst (query_frame env w)" "snd (query_frame env w)"]
    by simp
next
  case CallQueryFrames
  with assms show ?thesis
    using query_frames_keep_querying [of fuel env w "fst (query_frames fuel env w)" "snd (query_frames fuel env w)"]
    by simp
next
  case CallSignalStop
  then show ?thesis by (simp add: signal_stop_querying_def)
next
  case (CallGetFrame b)
  with assms show ?thesis
    using get_frame_keep_querying [of b w "fst (get_frame_from_deque b w)" "snd (get_frame_from_deque b w)"]
    by simp
next
  case CallShow
  with assms show ?thesis by (simp add: show_live_stream_video_stays_stopped)
next
  case (CallRecord i m)
  with assms show ?thesis by (simp add: record_live_stream_to_folder_stays_stopped)
next
  case (ReaderRuns n)
  with assms show ?thesis by simp
qed

text \<open>
  Claim C8. Once \<^verbatim>\<open>keep_querying\<close> is false it stays false under every sequence of calls on
  the instance (fetching, the producer loop, the stop signal, taking a frame, displaying,
  recording) and every progress of the reader thread, whatever the outside world does and
  however long the loops run.
\<close>

theorem stopped_stays_stopped:
  "\<not> keep_querying w \<Longrightarrow> \<not> keep_querying (exec_all fuel env cs w)"
  by (induction cs arbitrary: w) (simp_all add: exec_stays_stopped)

theorem stopped_stays_stopped_witness:
  "\<not> keep_querying (signal_stop_querying three_tries)
   \<and> \<not> keep_querying
        (exec_all 2 late
           [CallRecord 1 2, CallShow, CallQueryFrames, ReaderRuns 3, CallGetFrame True,
            CallQueryFrame]
           (signal_stop_querying three_tries))"
  using stopped_stays_stopped [of "signal_stop_querying three_tries" 2 late
          "[CallRecord 1 2, CallShow, CallQueryFrames, ReaderRuns 3, CallGetFrame True,
            CallQueryFrame]"]
  by (simp add: signal_stop_querying_def)

section \<open>How the producer loop ends\<close>

lemma yield_effect:
  "\<exists>fs m k tr st. yield env w =
       w\<lparr>frames := foldl deque_append (frames w) fs, reads := reads w + m,
         released := released w + k, turns := Suc (turns w), reader := st,
         trace := trace w @ tr\<rparr>
     \<and> (\<forall>p\<in>set tr. fst p = ReaderThread \<and> \<not> is_imwrite (snd p))"
proof -
  from run_reader_effect [of "sched env (turns w)" env "w\<lparr>turns := Suc (turns w)\<rparr>"]
  obtain fs m k tr st where
    "run_reader (sched env (turns w)) env (w\<lparr>turns := Suc (turns w)\<rparr>) =
       w\<lparr>turns := Suc (turns w), frames := foldl deque_append (frames w) fs, reads := reads w + m,
         released := released w + k, reader := st, trace := trace w @ tr\<rparr>"
    and "\<forall>p\<in>set tr. fst p = ReaderThread \<and> \<not> is_imwrite (snd p)" by auto
  then have "yield env w =
       w\<lparr>frames := foldl deque_append (frames w) fs, reads := reads w + m,
         released := released w + k, turns := Suc (turns w), reader := st,
         trace := trace w @ tr\<rparr>
     \<and> (\<forall>p\<in>set tr. fst p = ReaderThread \<and> \<not> is_imwrite (snd p))"
    unfolding yield_def by simp
  then show ?thesis by blast
qed

lemma run_reader_ended: "reader w = Ended r \<Longrightarrow> run_reader n env w = w"
  by (simp add: run_reader_def)

lemma three_tries_fields [simp]:
  "keep_querying three_tries" "cur three_tries = MainThread" "released three_tries = 0"
  "trace three_tries = []" "reads three_tries = 0" "frames three_tries = deque_new 3"
  "target_folder_path three_tries = Some ''/home/capture_now''"
  by (simp_all add: three_tries_def)

lemma silent_fetch:
  "query_frame silent (three_tries\<lparr>reader := st, cur := t\<rparr>) =
     (Inl (IOError ''No output from the stream. Ran out of maximum number of attempts.''),
      three_tries\<lparr>reader := st, cur := t, reads := 3,
        trace := [(t, Read), (t, Sleep (1 / 100)),
                  (t, Read), (t, Sleep (1 / 100)),
                  (t, Read), (t, Sleep (1 / 100))]\<rparr>)"
  by (simp add: query_frame_def query_frame_loop.simps video_capture_read_def sleep_def
      emit_def silent_def three_tries_def)

text \<open>
  Claim C3, as the code has it. When a call of \<^verbatim>\<open>_query_frame\<close> in the producer loop ends in
  the \<^verbatim>\<open>IOError\<close>, the loop logs the error and leaves through \<^verbatim>\<open>SystemExit(1)\<close>; the deque is
  as it was before the call, so no frame of the failed call is pushed; the flag
  \<^verbatim>\<open>keep_querying\<close> is not written and keeps its value, which is true, since the loop was
  running.
\<close>

theorem fetch_failure_ends_producer:
  assumes "keep_querying w" and "query_frame env w = (Inl (IOError msg), w1)"
  shows "query_frames (Suc n) env w = (Some (Inl (SystemExit 1)), emit (LogError msg) w1)
       \<and> frames (emit (LogError msg) w1) = frames w
       \<and> keep_querying (emit (LogError msg) w1) = keep_querying w
       \<and> released (emit (LogError msg) w1) = released w"
proof -
  from query_frame_effect [OF assms(2)] obtain k tr where
    "w1 = w\<lparr>reads := reads w + k, trace := trace w @ tr\<rparr>" by blast
  then show ?thesis using assms by (simp add: emit_def)
qed

theorem fetch_failure_ends_producer_witness:
  "keep_querying three_tries
   \<and> query_frames 4 silent three_tries =
       (Some (Inl (SystemExit 1)),
        three_tries\<lparr>reads := 3,
          trace := [(MainThread, Read), (MainThread, Sleep (1 / 100)),
                  (MainThread, Read), (MainThread, Sleep (1 / 100)),
                  (MainThread, Read), (MainThread, Sleep (1 / 100)),
             (MainThread, LogError ''No output from the stream. Ran out of maximum number of attempts.'')]\<rparr>)"
proof -
  have q: "query_frame silent three_tries =
     (Inl (IOError ''No output from the stream. Ran out of maximum number of attempts.''),
      three_tries\<lparr>reads := 3,
        trace := [(MainThread, Read), (MainThread, Sleep (1 / 100)),
                  (MainThread, Read), (MainThread, Sleep (1 / 100)),
                  (MainThread, Read), (MainThread, Sleep (1 / 100))]\<rparr>)"
    using silent_fetch [where st = NotStarted and t = MainThread] by (simp add: three_tries_def)
  from fetch_failure_ends_producer [OF _ q, of 3] show ?thesis
    by (simp add: emit_def)
qed

text \<open>
  The claim as the specification states it asks for the flag to become false. With a source
  that never has a frame and three attempts, the fetch fails, the loop ends with
  \<^verbatim>\<open>SystemExit(1)\<close>, and the flag is still set.
\<close>

theorem fetch_failure_leaves_flag_set:
  "fst (query_frame silent three_tries) =
     Inl (IOError ''No output from the stream. Ran out of maximum number of attempts.'')
   \<and> fst (query_frames 1 silent three_tries) = Some (Inl (SystemExit 1))
   \<and> keep_querying (snd (query_frames 1 silent three_tries))"
proof -
  have "query_frame silent three_tries = query_frame silent (three_tries\<lparr>reader := NotStarted, cur := MainThread\<rparr>)"
    by (simp add: three_tries_def)
  then show ?thesis
    by (simp add: silent_fetch emit_def)
qed

text \<open>
  The same in the reader thread: the thread ends with \<^verbatim>\<open>SystemExit(1)\<close>, and an ended thread
  does nothing more.
\<close>

lemma fetch_failure_ends_reader:
  assumes "keep_querying w" and "reader w = Alive"
    and "query_frame env (w\<lparr>cur := ReaderThread\<rparr>) = (Inl (IOError msg), w1)"
  shows "reader (run_reader (Suc n) env w) = Ended (Inl (SystemExit 1))
       \<and> frames (run_reader (Suc n) env w) = frames w
       \<and> keep_querying (run_reader (Suc n) env w) = keep_querying w
       \<and> released (run_reader (Suc n) env w) = released w
       \<and> run_reader k env (run_reader (Suc n) env w) = run_reader (Suc n) env w"
proof -
  from query_frame_effect [OF assms(3)] obtain j tr where
    w1: "w1 = w\<lparr>cur := ReaderThread, reads := reads w + j, trace := trace w @ tr\<rparr>" by auto
  have "run_reader (Suc n) env w = (emit (LogError msg) w1)\<lparr>cur := cur w, reader := Ended (Inl (SystemExit 1))\<rparr>"
    using assms by (simp add: run_reader_def)
  with w1 show ?thesis by (simp add: emit_def run_reader_ended)
qed

text \<open>
  On a stop request the reader thread finds the flag cleared at the head of its loop, logs,
  releases the capture handle once and ends.
\<close>

lemma stop_request_releases_once:
  assumes "\<not> keep_querying w" and "reader w = Alive"
  shows "run_reader (Suc n) env w =
           w\<lparr>released := Suc (released w), reader := Ended (Inr ()),
             trace := trace w @ [(ReaderThread, LogInfo QueryingFinished), (ReaderThread, Release)]\<rparr>
       \<and> run_reader k env (run_reader (Suc n) env w) = run_reader (Suc n) env w"
proof -
  have "run_reader (Suc n) env w =
           w\<lparr>released := Suc (released w), reader := Ended (Inr ()),
             trace := trace w @ [(ReaderThread, LogInfo QueryingFinished), (ReaderThread, Release)]\<rparr>"
    using assms by (simp add: run_reader_def video_capture_release_def emit_def)
  then show ?thesis by (simp add: run_reader_ended)
qed

text \<open>
  Claim C4 asks for the release on every way out of the loop. On the failure path the code
  does not reach it: with a source that never has a frame and three attempts, the reader
  thread ends with \<^verbatim>\<open>SystemExit(1)\<close>, \<^verbatim>\<open>release\<close> has been called zero times, and the ended
  thread never calls it.
\<close>

theorem fetch_failure_skips_release:
  "reader (run_reader 1 silent (three_tries\<lparr>reader := Alive\<rparr>)) = Ended (Inl (SystemExit 1))
   \<and> released (run_reader 1 silent (three_tries\<lparr>reader := Alive\<rparr>)) = 0
   \<and> filter (\<lambda>p. snd p = Release) (trace (run_reader 1 silent (three_tries\<lparr>reader := Alive\<rparr>))) = []
   \<and> run_reader 5 silent (run_reader 1 silent (three_tries\<lparr>reader := Alive\<rparr>))
       = run_reader 1 silent (three_tries\<lparr>reader := Alive\<rparr>)"
proof -
  have "run_reader 1 silent (three_tries\<lparr>reader := Alive\<rparr>) =
     three_tries\<lparr>reader := Ended (Inl (SystemExit 1)), reads := 3,
        trace := [(ReaderThread, Read), (ReaderThread, Sleep (1 / 100)),
                  (ReaderThread, Read), (ReaderThread, Sleep (1 / 100)),
                  (ReaderThread, Read), (ReaderThread, Sleep (1 / 100)),
                  (ReaderThread, LogError ''No output from the stream. Ran out of maximum number of attempts.'')]\<rparr>"
    by (simp add: run_reader_def silent_fetch emit_def)
  then show ?thesis by (simp add: run_reader_def)
qed

section \<open>Recording\<close>

text \<open>
  Claim C9. The constructor assigns \<^verbatim>\<open>self.target_folder_path\<close> exactly when the argument is
  \<^verbatim>\<open>None\<close> or empty. For a non-empty argument the attribute is left unassigned, and
  \<^verbatim>\<open>record_live_stream_to_folder\<close> on that instance raises the \<^verbatim>\<open>AttributeError\<close> at its first
  statement, with the instance and the trace as they were: no image is written.
\<close>

theorem nonempty_target_never_assigned:
  assumes "target \<noteq> []"
    and "init env url (Some target) buffer_size verb micro max_fail = Inr w"
  shows "target_folder_path w = None
       \<and> record_live_stream_to_folder fuel env interval_in_seconds max_num_images w
           = (Some (Inl no_attribute), w)
       \<and> (\<forall>t w'. init env url t buffer_size verb micro max_fail = Inr w' \<longrightarrow>
             (target_folder_path w' \<noteq> None) = (t = None \<or> t = Some []))"
proof -
  from assms have a: "target_folder_path w = None"
    by (auto simp: init_def Let_def split: if_splits)
  then have b: "record_live_stream_to_folder fuel env interval_in_seconds max_num_images w
           = (Some (Inl no_attribute), w)"
    by (simp add: record_live_stream_to_folder_def)
  have c: "(target_folder_path w' \<noteq> None) = (t = None \<or> t = Some [])"
    if "init env url t buffer_size verb micro max_fail = Inr w'" for t and w' :: "'a vsc"
    using that by (auto simp: init_def Let_def now_strftime_def split: if_splits)
  from a b c show ?thesis by blast
qed

theorem nonempty_target_never_assigned_witness:
  "''out'' \<noteq> []
   \<and> init silent ''cam'' (Some ''out'') 3 True (1 / 100) 3
       = Inr (three_tries\<lparr>target_folder_path := None, ticks := 0\<rparr>)
   \<and> record_live_stream_to_folder 5 silent 1 2 (three_tries\<lparr>target_folder_path := None, ticks := 0\<rparr>)
       = (Some (Inl no_attribute), three_tries\<lparr>target_folder_path := None, ticks := 0\<rparr>)"
proof -
  have i: "init silent ''cam'' (Some ''out'') 3 True (1 / 100) 3
       = Inr (three_tries\<lparr>target_folder_path := None, ticks := 0\<rparr>)"
    by (simp add: init_def three_tries_def)
  from nonempty_target_never_assigned [OF _ i, of 5 1 2] i show ?thesis by simp
qed

lemma record_loop_skipped:
  "m \<le> 0 \<Longrightarrow> m \<noteq> - 1 \<Longrightarrow> record_loop fuel env i m 0 w = (Some (Inr 0), w)"
  by (cases fuel) auto

text \<open>
  Claim C10. For a limit \<open>m \<le> 0\<close> other than -1, on an instance whose target folder is
  assigned, the loop of \<^verbatim>\<open>record_live_stream_to_folder\<close> returns at once with no pass through
  its body, whatever the state and the fuel; the call returns, the flag is cleared, and no
  event that the call added to the trace writes an image.
\<close>

theorem nonpositive_limit_records_nothing:
  assumes "m \<le> 0" and "m \<noteq> - 1" and "target_folder_path w = Some folder"
  shows "record_loop fuel env i m 0 w0 = (Some (Inr 0), w0)
     \<and> fst (record_live_stream_to_folder fuel env i m w) = Some (Inr ())
     \<and> \<not> keep_querying (snd (record_live_stream_to_folder fuel env i m w))
     \<and> filter (\<lambda>p. is_imwrite (snd p))
         (drop (length (trace w)) (trace (snd (record_live_stream_to_folder fuel env i m w)))) = []"
proof -
  define w7 where "w7 = emit ThreadStart
    ((emit (LogInfo (StartingCapture (stream_url w)))
       (emit (LogInfo KillAnyTime)
         (emit (LogInfo (UntilImages m))
           (emit (LogInfo (RecordEvery i))
             (emit (LogInfo (RecordingTo folder))
               (emit (SetupLogger (Some folder)) (emit (Mkdir folder) w)))))))\<lparr>reader := Alive\<rparr>)"
  have t7: "trace w7 = trace w @ [(cur w, Mkdir folder), (cur w, SetupLogger (Some folder)),
      (cur w, LogInfo (RecordingTo folder)), (cur w, LogInfo (RecordEvery i)),
      (cur w, LogInfo (UntilImages m)), (cur w, LogInfo KillAnyTime),
      (cur w, LogInfo (StartingCapture (stream_url w))), (cur w, ThreadStart)]"
    by (simp add: w7_def emit_def)
  from yield_effect [of env w7] obtain fs j k tr st where
    y: "yield env w7 = w7\<lparr>frames := foldl deque_append (frames w7) fs, reads := reads w7 + j,
         released := released w7 + k, turns := Suc (turns w7), reader := st,
         trace := trace w7 @ tr\<rparr>"
    and tr: "\<forall>p\<in>set tr. fst p = ReaderThread \<and> \<not> is_imwrite (snd p)" by blast
  let ?w9 = "signal_stop_querying (yield env w7)"
  have res: "record_live_stream_to_folder fuel env i m w =
      (Some (Inr ()), if verbose ?w9 then emit (LogInfo (TotalSaved 0)) ?w9 else ?w9)"
    using assms record_loop_skipped [OF assms(1,2), of fuel env i w7]
    by (simp add: record_live_stream_to_folder_def Let_def w7_def emit_def)
  have nf: "filter (\<lambda>p. is_imwrite (snd p)) tr = []"
    using tr by (simp add: filter_empty_conv)
  have "filter (\<lambda>p. is_imwrite (snd p))
         (drop (length (trace w)) (trace (snd (record_live_stream_to_folder fuel env i m w)))) = []"
    unfolding res using nf
    by (simp add: y t7 signal_stop_querying_def emit_def)
  moreover have "\<not> keep_querying (snd (record_live_stream_to_folder fuel env i m w))"
    unfolding res by (simp add: signal_stop_querying_def emit_def)
  ultimately show ?thesis
    using res record_loop_skipped [OF assms(1,2)] by simp
qed

theorem nonpositive_limit_records_nothing_witness:
  "(0::int) \<le> 0 \<and> (0::int) \<noteq> - 1 \<and> target_folder_path three_tries = Some ''/home/capture_now''
   \<and> fst (record_live_stream_to_folder 0 late 1 0 three_tries) = Some (Inr ())
   \<and> \<not> keep_querying (snd (record_live_stream_to_folder 0 late 1 0 three_tries))"
  using nonpositive_limit_records_nothing [of 0 three_tries "''/home/capture_now''" 0 late 1]
  by (simp add: three_tries_def)

section \<open>Recording a stream that delivers\<close>

text \<open>
  While the flag is set, the retry limit is at least 1 and the source has a frame at every
  read, each pass of the reader loop reads once and appends that frame.
\<close>

lemma deque_append_nonempty: "1 \<le> maxlen d \<Longrightarrow> items (deque_append d x) \<noteq> []"
  by (cases "items d") (simp_all add: deque_append_items)

lemma foldl_deque_append_nonempty:
  "1 \<le> maxlen d \<Longrightarrow> fs \<noteq> [] \<Longrightarrow> items (foldl deque_append d fs) \<noteq> []"
  by (induction fs rule: rev_induct) (simp_all add: deque_append_nonempty)

lemma query_frames_ready:
  assumes "keep_querying w" and "1 \<le> max_sequential_fail_attempts w"
    and "\<forall>i. source env i \<noteq> None"
  shows "query_frames n env w =
           (None, w\<lparr>frames := foldl deque_append (frames w)
                                (map (\<lambda>i. the (source env i)) [reads w ..< reads w + n]),
                    reads := reads w + n,
                    trace := trace w @ replicate n (cur w, Read)\<rparr>)"
  using assms(1,2)
proof (induction n arbitrary: w)
  case 0
  then show ?case by simp
next
  case (Suc n)
  from assms(3) obtain f where f: "source env (reads w) = Some f" by auto
  let ?w1 = "w\<lparr>reads := Suc (reads w), trace := trace w @ [(cur w, Read)]\<rparr>"
  let ?w2 = "?w1\<lparr>frames := deque_append (frames ?w1) f\<rparr>"
  have q: "query_frame env w = (Inr f, ?w1)"
    using Suc.prems f by (intro query_frame_found) simp_all
  have step: "query_frames (Suc n) env w = query_frames n env ?w2"
    using Suc.prems q by simp
  have k: "keep_querying ?w2" "1 \<le> max_sequential_fail_attempts ?w2"
    using Suc.prems by simp_all
  have u: "[reads w ..< reads w + Suc n] = reads w # [Suc (reads w) ..< Suc (reads w) + n]"
    by (simp add: upt_conv_Cons)
  show ?case
    unfolding step Suc.IH [OF k] u
    by (simp add: f replicate_append_same)
qed

lemma yield_ready:
  assumes "streaming folder w" and "\<forall>i. source env i \<noteq> None" and "\<forall>i. 1 \<le> sched env i"
  shows "\<exists>d j. yield env w = w\<lparr>frames := d, reads := reads w + j, turns := Suc (turns w),
                              trace := trace w @ replicate j (ReaderThread, Read)\<rparr>
             \<and> items d \<noteq> [] \<and> maxlen d = maxlen (frames w)"
proof -
  let ?n = "sched env (turns w)"
  let ?w0 = "w\<lparr>turns := Suc (turns w), cur := ReaderThread\<rparr>"
  let ?fs = "map (\<lambda>i. the (source env i)) [reads w ..< reads w + ?n]"
  have n: "1 \<le> ?n" using assms(3) by simp
  have "keep_querying ?w0" "1 \<le> max_sequential_fail_attempts ?w0"
    using assms(1) by (simp_all add: streaming_def)
  from query_frames_ready [OF this assms(2), of ?n]
  have q: "query_frames ?n env ?w0 =
     (None, ?w0\<lparr>frames := foldl deque_append (frames w) ?fs, reads := reads w + ?n,
                trace := trace w @ replicate ?n (ReaderThread, Read)\<rparr>)"
    by simp
  have y: "yield env w = w\<lparr>frames := foldl deque_append (frames w) ?fs, reads := reads w + ?n,
      turns := Suc (turns w), trace := trace w @ replicate ?n (ReaderThread, Read)\<rparr>"
    using assms(1) q by (simp add: yield_def run_reader_def streaming_def)
  have "?fs \<noteq> []" using n by simp
  then have "items (foldl deque_append (frames w) ?fs) \<noteq> []"
    using assms(1) by (intro foldl_deque_append_nonempty) (simp_all add: streaming_def)
  with y show ?thesis by (metis foldl_deque_append_maxlen)
qed

lemma report_progress_effect:
  "\<exists>logs. report_progress folder n w = w\<lparr>trace := trace w @ map (Pair (cur w)) logs\<rparr>
         \<and> (\<forall>e\<in>set logs. \<exists>msg. e = LogInfo msg)"
proof -
  let ?a = "verbose w \<and> n > 0 \<and> n mod 10 = 0"
  let ?b = "verbose w \<and> n > 0 \<and> n mod 100 = 0"
  let ?logs = "(if ?a then [LogInfo (ImagesSaved n)] else []) @
               (if ?b then [LogInfo (FolderContains folder)] else [])"
  have "report_progress folder n w = w\<lparr>trace := trace w @ map (Pair (cur w)) ?logs\<rparr>"
    by (simp add: report_progress_def Let_def emit_def)
  moreover have "\<forall>e\<in>set ?logs. \<exists>msg. e = LogInfo msg" by auto
  ultimately show ?thesis by blast
qed

lemma events_of_append [simp]: "events_of t (xs @ ys) = events_of t xs @ events_of t ys"
  by (simp add: events_of_def)

lemma events_of_other: "t \<noteq> t' \<Longrightarrow> events_of t (replicate j (t', e)) = []"
  by (simp add: events_of_def)

lemma events_of_same: "events_of t (map (Pair t) es) = es"
  by (induction es) (simp_all add: events_of_def)

lemma record_pass:
  assumes st: "streaming folder w"
    and src: "\<forall>i. source env i \<noteq> None" and sch: "\<forall>i. 1 \<le> sched env i"
    and key: "\<forall>j. keys env j AND 255 \<noteq> 113"
    and lt: "n < m" and iv: "0 \<le> i"
  shows "\<exists>w'' tr p f logs.
           record_loop (Suc k) env i m n w = record_loop k env i m (n + 1) w''
         \<and> streaming folder w'' \<and> trace w'' = trace w @ tr
         \<and> events_of MainThread tr = Imwrite p f # Sleep i # WaitKey # logs
         \<and> filter (\<lambda>q. is_imwrite (snd q)) tr = [(MainThread, Imwrite p f)]
         \<and> (\<forall>e\<in>set logs. \<exists>msg. e = LogInfo msg)"
proof -
  from yield_ready [OF st src sch] obtain d j where
    y: "yield env w = w\<lparr>frames := d, reads := reads w + j, turns := Suc (turns w),
                              trace := trace w @ replicate j (ReaderThread, Read)\<rparr>"
    and d: "items d \<noteq> []" and md: "maxlen d = maxlen (frames w)" by blast
  define f where "f = hd (items d)"
  define p where "p = path_join folder (clock env (ticks w) @ ''.png'')"
  define w4 where "w4 = w\<lparr>frames := d\<lparr>items := tl (items d)\<rparr>, reads := reads w + j,
      turns := Suc (turns w), ticks := Suc (ticks w), polls := Suc (polls w),
      trace := trace w @ replicate j (ReaderThread, Read) @
               [(MainThread, Imwrite p f), (MainThread, Sleep i), (MainThread, WaitKey)]\<rparr>"
  have g: "get_frame_from_deque False (yield env w) =
      (Some f, w\<lparr>frames := d\<lparr>items := tl (items d)\<rparr>, reads := reads w + j, turns := Suc (turns w),
                              trace := trace w @ replicate j (ReaderThread, Read)\<rparr>)"
    using d by (simp add: y get_frame_from_deque_def f_def)
  have c: "cur w = MainThread" "target_folder_path w = Some folder"
    using st by (simp_all add: streaming_def)
  have step: "record_loop (Suc k) env i m n w =
      record_loop k env i m (n + 1) (report_progress folder (n + 1) w4)"
    using lt iv key c
    by (simp add: g now_strftime_def save_or_wait_def sleep_def emit_def wait_key_def
        w4_def p_def)
  from report_progress_effect [of folder "n + 1" w4] obtain logs where
    rp: "report_progress folder (n + 1) w4 = w4\<lparr>trace := trace w4 @ map (Pair (cur w4)) logs\<rparr>"
    and logs: "\<forall>e\<in>set logs. \<exists>msg. e = LogInfo msg" by blast
  have c4: "cur w4 = MainThread" using c by (simp add: w4_def)
  let ?tr = "replicate j (ReaderThread, Read) @
               [(MainThread, Imwrite p f), (MainThread, Sleep i), (MainThread, WaitKey)] @
               map (Pair MainThread) logs"
  have s'': "streaming folder (report_progress folder (n + 1) w4)"
    unfolding rp using st md by (simp add: streaming_def w4_def)
  have t'': "trace (report_progress folder (n + 1) w4) = trace w @ ?tr"
    unfolding rp c4 by (simp add: w4_def)
  have e'': "events_of MainThread ?tr = Imwrite p f # Sleep i # WaitKey # logs"
    by (simp add: events_of_def comp_def)
  have "filter (\<lambda>q. is_imwrite (snd q)) (map (Pair MainThread) logs) = []"
    using logs by (auto simp: filter_empty_conv)
  then have f'': "filter (\<lambda>q. is_imwrite (snd q)) ?tr = [(MainThread, Imwrite p f)]"
    by simp
  from step s'' t'' e'' f'' logs show ?thesis by blast
qed


lemma gaps_quiet_prefix:
  "\<forall>e\<in>set xs. \<not> P e \<and> duration e = 0 \<Longrightarrow> gaps P acc (xs @ es) = gaps P acc es"
proof (induction xs arbitrary: acc)
  case Nil
  show ?case by simp
next
  case (Cons x xs)
  have "map_option (\<lambda>a. a + 0) acc = acc" by (cases acc) simp_all
  with Cons show ?case by simp
qed

lemma gaps_no_event: "\<forall>e\<in>set xs. \<not> P e \<Longrightarrow> gaps P acc xs = []"
  by (induction xs arbitrary: acc) simp_all

lemma gaps_quiet_suffix:
  "\<forall>e\<in>set ys. \<not> P e \<Longrightarrow> gaps P acc (xs @ ys) = gaps P acc xs"
  by (induction xs arbitrary: acc) (simp_all add: gaps_no_event)

lemma record_loop_ready:
  assumes src: "\<forall>i. source env i \<noteq> None" and sch: "\<forall>i. 1 \<le> sched env i"
    and key: "\<forall>j. keys env j AND 255 \<noteq> 113"
    and iv: "0 \<le> i" and m: "m \<noteq> - 1"
  shows "streaming folder w \<Longrightarrow> n \<le> m \<Longrightarrow> nat (m - n) = j \<Longrightarrow> j \<le> fuel \<Longrightarrow>
         \<exists>w' tr. record_loop fuel env i m n w = (Some (Inr m), w')
           \<and> streaming folder w' \<and> trace w' = trace w @ tr
           \<and> length (filter (\<lambda>q. is_imwrite (snd q)) tr) = j
           \<and> (\<forall>acc. (\<forall>a. acc = Some a \<longrightarrow> i \<le> a) \<longrightarrow>
                 list_all (\<lambda>g. i \<le> g) (gaps is_imwrite acc (events_of MainThread tr)))"
proof (induction j arbitrary: n w fuel)
  case 0
  then have "n = m" by simp
  then have "record_loop fuel env i m n w = (Some (Inr m), w)"
    using m by (cases fuel) simp_all
  moreover have "trace w = trace w @ []" by simp
  moreover have "length (filter (\<lambda>q. is_imwrite (snd q)) ([] :: (thread \<times> 'a event) list)) = 0"
    by simp
  moreover have "\<forall>acc. (\<forall>a. acc = Some a \<longrightarrow> i \<le> a) \<longrightarrow>
                 list_all (\<lambda>g. i \<le> g) (gaps is_imwrite acc (events_of MainThread ([] :: (thread \<times> 'a event) list)))"
    by (simp add: events_of_def)
  ultimately show ?case using "0.prems"(1) by blast
next
  case (Suc j)
  from Suc.prems obtain k where fuel: "fuel = Suc k" and k: "j \<le> k" by (cases fuel) auto
  from Suc.prems have lt: "n < m" by simp
  from record_pass [OF Suc.prems(1) src sch key lt iv, of k] obtain w'' tr1 p f logs where
    step: "record_loop (Suc k) env i m n w = record_loop k env i m (n + 1) w''"
    and s'': "streaming folder w''" and t'': "trace w'' = trace w @ tr1"
    and e1: "events_of MainThread tr1 = Imwrite p f # Sleep i # WaitKey # logs"
    and f1: "filter (\<lambda>q. is_imwrite (snd q)) tr1 = [(MainThread, Imwrite p f)]"
    and logs: "\<forall>e\<in>set logs. \<exists>msg. e = LogInfo msg" by blast
  have "n + 1 \<le> m" "nat (m - (n + 1)) = j" using lt Suc.prems by simp_all
  from Suc.IH [OF s'' this k] obtain w' tr2 where
    r: "record_loop k env i m (n + 1) w'' = (Some (Inr m), w')"
    and s': "streaming folder w'" and t': "trace w' = trace w'' @ tr2"
    and c2: "length (filter (\<lambda>q. is_imwrite (snd q)) tr2) = j"
    and g2: "\<forall>acc. (\<forall>a. acc = Some a \<longrightarrow> i \<le> a) \<longrightarrow>
                 list_all (\<lambda>g. i \<le> g) (gaps is_imwrite acc (events_of MainThread tr2))" by blast
  have quiet: "\<forall>e\<in>set logs. \<not> is_imwrite e \<and> duration e = 0" using logs by auto
  have cnt: "length (filter (\<lambda>q. is_imwrite (snd q)) (tr1 @ tr2)) = Suc j"
    using c2 by (simp add: f1)
  have gp: "list_all (\<lambda>g. i \<le> g) (gaps is_imwrite acc (events_of MainThread (tr1 @ tr2)))"
    if ok: "\<forall>a. acc = Some a \<longrightarrow> i \<le> a" for acc
  proof -
    have "gaps is_imwrite acc (events_of MainThread (tr1 @ tr2)) =
          (case acc of None \<Rightarrow> [] | Some a \<Rightarrow> [a]) @
          gaps is_imwrite (Some i) (events_of MainThread tr2)"
      by (simp add: e1 gaps_quiet_prefix [OF quiet])
    moreover have "list_all (\<lambda>g. i \<le> g) (gaps is_imwrite (Some i) (events_of MainThread tr2))"
      using g2 by simp
    ultimately show ?thesis using ok by (cases acc) simp_all
  qed
  have "record_loop fuel env i m n w = (Some (Inr m), w')" using fuel step r by simp
  moreover have "trace w' = trace w @ (tr1 @ tr2)" using t' t'' by simp
  ultimately show ?case using s' cnt gp by blast
qed


lemma events_of_foreign: "\<forall>p\<in>set tr. fst p \<noteq> t \<Longrightarrow> events_of t tr = []"
  by (auto simp: events_of_def filter_empty_conv)



text \<open>
  Without the condition on the key the claim fails: the loop polls \<^verbatim>\<open>cv2.waitKey\<close> on every
  pass and breaks on \<^verbatim>\<open>q\<close>. With a limit of 2, a source that always has a frame and the key
  pressed, the call returns after one write.
\<close>

lemma three_tries_more [simp]:
  "stream_url three_tries = ''cam''" "verbose three_tries"
  by (simp_all add: three_tries_def)

lemma quit_loop:
  "record_loop 2 quit_pressed 1 2 0
     (three_tries\<lparr>reader := Alive,
        trace := [(MainThread, Mkdir ''/home/capture_now''),
            (MainThread, SetupLogger (Some ''/home/capture_now'')),
            (MainThread, LogInfo (RecordingTo ''/home/capture_now'')),
            (MainThread, LogInfo (RecordEvery 1)),
            (MainThread, LogInfo (UntilImages 2)),
            (MainThread, LogInfo KillAnyTime),
            (MainThread, LogInfo (StartingCapture ''cam'')),
            (MainThread, ThreadStart)]\<rparr>) =
   (Some (Inr 1),
    three_tries\<lparr>frames := \<lparr>items = [], maxlen = 3\<rparr>,
        reads := 1, polls := 1, ticks := 2, turns := 1, reader := Alive,
        trace := [(MainThread, Mkdir ''/home/capture_now''),
            (MainThread, SetupLogger (Some ''/home/capture_now'')),
            (MainThread, LogInfo (RecordingTo ''/home/capture_now'')),
            (MainThread, LogInfo (RecordEvery 1)),
            (MainThread, LogInfo (UntilImages 2)),
            (MainThread, LogInfo KillAnyTime),
            (MainThread, LogInfo (StartingCapture ''cam'')),
            (MainThread, ThreadStart), (ReaderThread, Read),
            (MainThread, Imwrite ''/home/capture_now/now.png'' 0),
            (MainThread, Sleep 1), (MainThread, WaitKey)]\<rparr>)"
  by (simp add: numeral_2_eq_2 Let_def emit_def 
      yield_def run_reader_def query_frame_def query_frame_loop.simps video_capture_read_def
      get_frame_from_deque_def now_strftime_def save_or_wait_def sleep_def wait_key_def
      deque_append_def deque_new_def path_join_def
      quit_pressed_def three_tries_def)

lemma quit_last_yield:
  "yield quit_pressed
    (three_tries\<lparr>frames := \<lparr>items = [], maxlen = 3\<rparr>,
        reads := Suc 0, polls := Suc 0, ticks := 2, turns := Suc 0, reader := Alive,
        trace := tr\<rparr>) =
   three_tries\<lparr>frames := \<lparr>items = [1], maxlen = 3\<rparr>,
        reads := 2, polls := 1, ticks := 2, turns := 2, reader := Alive,
        trace := tr @ [(ReaderThread, Read)]\<rparr>"
  by (simp add: Let_def emit_def 
      yield_def run_reader_def query_frame_def query_frame_loop.simps video_capture_read_def
      deque_append_def quit_pressed_def three_tries_def)


end
